(* ===== verification/Prelude.thy ===== *)
theory Prelude
  imports Main "HOL-Library.Word"
begin

text \<open>
  Shared vocabulary of the development: the Go machine types the three source files use
  (\<open>byte\<close>, \<open>int64\<close>), the error values they return, the result triple of
  \<open>io.ReaderAt.ReadAt\<close>, the Go builtin \<open>copy\<close> and the conversion \<open>int64(len(x))\<close>,
  with the word lemmas that every component proof needs: a Go length always fits in an
  \<open>int64\<close>, and adding a non-negative \<open>int\<close> to a non-negative \<open>int64\<close> does not wrap
  as long as the sum stays below \<open>2^63\<close>.
\<close>

section \<open>Go machine types\<close>

type_synonym byte = "8 word"
type_synonym int64 = "64 word"

text \<open>
  Go errors are compared by identity. \<open>errors.New\<close> in \<open>bytes/view.go\<close> and in
  \<open>strings/view.go\<close> makes two different values with the same message, so the
  invalid-offset error records the package that made it. \<open>ErrCloser\<close> is whatever the
  \<open>Close\<close> method of an \<open>io.Closer\<close> source returns; its contents are opaque here.
\<close>

datatype pkg = PkgBytes | PkgStrings

datatype go_error =
    ErrInvalidOffset pkg
  | EOF
  | ErrClosed
  | ErrCloser string

text \<open>
  \<open>ReadAt(p, off)\<close> returns \<open>(n, err)\<close> and writes into the caller's slice \<open>p\<close>.
  The model returns the new contents of \<open>p\<close> together with \<open>n\<close> and the error
  (\<open>None\<close> is Go's \<open>nil\<close>). \<open>n\<close> is a Go \<open>int\<close>; it never exceeds \<open>len(p)\<close>, so it
  is a \<open>nat\<close> here.
\<close>

type_synonym read_result = "byte list \<times> nat \<times> go_error option"

abbreviation rr_buf :: "read_result \<Rightarrow> byte list" where
  "rr_buf r \<equiv> fst r"

abbreviation rr_n :: "read_result \<Rightarrow> nat" where
  "rr_n r \<equiv> fst (snd r)"

abbreviation rr_err :: "read_result \<Rightarrow> go_error option" where
  "rr_err r \<equiv> snd (snd r)"

section \<open>Go builtins\<close>

text \<open>
  \<open>copy(dst, src)\<close> copies \<open>min(len(dst), len(src))\<close> elements to the front of
  \<open>dst\<close>, leaves the rest of \<open>dst\<close> as it was and returns the count. The special case
  \<open>copy([]byte, string)\<close> copies the bytes of the string (\<open>go_copy_str\<close>): an Isabelle
  \<open>char\<close> is one byte, as a byte of a Go string is.
\<close>

definition go_copy :: "byte list \<Rightarrow> byte list \<Rightarrow> byte list \<times> nat" where
  "go_copy dst src =
     (let n = min (length dst) (length src) in (take n src @ drop n dst, n))"

definition go_copy_str :: "byte list \<Rightarrow> string \<Rightarrow> byte list \<times> nat" where
  "go_copy_str dst s = go_copy dst (map of_char s)"

text \<open>\<open>int64(len(x))\<close>; \<open>len\<close> is a Go \<open>int\<close>, at most \<open>2^63 - 1\<close>.\<close>

definition int64_len :: "'a list \<Rightarrow> int64" where
  "int64_len xs = word_of_nat (length xs)"

definition go_len_ok :: "'a list \<Rightarrow> bool" where
  "go_len_ok xs \<longleftrightarrow> length xs < 2 ^ 63"

section \<open>Shared lemmas\<close>

named_theorems go_simps \<open>evaluation rules for the Go model\<close>

declare word_sless_alt [go_simps] word_sle_eq [go_simps]

lemma go_copy_n [simp]: "snd (go_copy dst src) = min (length dst) (length src)"
  by (simp add: go_copy_def Let_def)

lemma go_copy_length [simp]: "length (fst (go_copy dst src)) = length dst"
  by (simp add: go_copy_def Let_def)

lemma go_copy_prefix:
  "take (snd (go_copy dst src)) (fst (go_copy dst src)) = take (length dst) src"
  by (simp add: go_copy_def Let_def min_def)

lemma go_copy_suffix:
  "drop (snd (go_copy dst src)) (fst (go_copy dst src)) = drop (length src) dst"
  by (simp add: go_copy_def Let_def min_def)

lemma go_copy_str_eq: "go_copy_str dst s = go_copy dst (map of_char s)"
  by (simp add: go_copy_str_def)

lemma uint_of_nat_small: "n < 2 ^ 63 \<Longrightarrow> uint (word_of_nat n :: int64) = int n"
  by (simp add: uint_nat unat_of_nat)

lemma sint_of_nat_small [simp]: "n < 2 ^ 63 \<Longrightarrow> sint (word_of_nat n :: int64) = int n"
  by (simp add: sint_uint uint_of_nat_small signed_take_bit_int_eq_self)

lemma sint_int64_len [simp]: "go_len_ok xs \<Longrightarrow> sint (int64_len xs) = int (length xs)"
  by (simp add: int64_len_def go_len_ok_def)

lemma int64_len_eq_iff:
  "go_len_ok d \<Longrightarrow> (w = int64_len d) \<longleftrightarrow> sint w = int (length d)"
  by (metis sint_int64_len signed_word_eqI)

lemma sint_nonneg_unat: "0 \<le> sint (w :: int64) \<Longrightarrow> int (unat w) = sint w"
proof -
  assume nonneg: "0 \<le> sint w"
  have "sint w < 2 ^ 63" using sint_less [of w] by simp
  with nonneg have "uint w = sint w" by (simp add: uint_sint take_bit_int_eq_self)
  then show ?thesis by simp
qed

text \<open>\<open>i += int64(n)\<close> does not wrap while the sum stays below \<open>2^63\<close>.\<close>

lemma sint_add_of_nat:
  assumes "0 \<le> sint (w :: int64)" and "sint w + int n < 2 ^ 63"
  shows "sint (w + word_of_nat n) = sint w + int n"
proof -
  have "int n < 2 ^ 63" using assms by linarith
  then have "n < 2 ^ 63" by (metis of_nat_less_numeral_power_cancel_iff)
  then have "sint (word_of_nat n :: int64) = int n" by simp
  with assms show ?thesis
    by (simp add: sint_word_add signed_take_bit_int_eq_self)
qed

end
