(* ===== verification/Reader_Interface.thy ===== *)
theory Reader_Interface
  imports Prelude
begin

text \<open>
  The \<open>SizeReaderAt\<close> interface of \<open>consumer.go\<close> (\<open>io.ReaderAt\<close> plus \<open>Size() int64\<close>)
  as a method table over the type \<open>'r\<close> of the value behind the interface, together with
  the optional \<open>io.Closer\<close> method that \<open>Consumer.Close\<close> looks for with a type
  assertion. The abstract specification \<open>readat_spec\<close> states, over unbounded integers
  and lists, what a positioned read of a fixed byte sequence returns (spec section 4.1);
  \<open>reader_contract\<close> is what a value must satisfy to be a sized source of that byte
  sequence. The views discharge the contract (\<open>Bytes_View\<close>, \<open>Strings_View\<close>); the
  consumer's lemmas assume it (\<open>Consumer\<close>).
\<close>

section \<open>The interface\<close>

text \<open>
  \<open>Closer r = None\<close>: the dynamic type of \<open>r\<close> does not implement \<open>io.Closer\<close>
  (the \<open>!ok\<close> branch of the type assertion). \<open>Closer r = Some (r', e)\<close>: calling
  \<open>Close\<close> returns \<open>e\<close> and leaves the source in state \<open>r'\<close>.
\<close>

record 'r SizeReaderAt =
  ReadAt :: "'r \<Rightarrow> byte list \<Rightarrow> int64 \<Rightarrow> read_result"
  Size :: "'r \<Rightarrow> int64"
  Closer :: "'r \<Rightarrow> ('r \<times> go_error option) option"

section \<open>Abstract specification of a positioned read\<close>

text \<open>
  Reading the byte sequence \<open>d\<close> at integer offset \<open>off\<close> into a buffer \<open>p\<close>: an offset
  outside \<open>[0, len d]\<close> is rejected with the source's invalid-offset error and nothing
  written; otherwise the window of at most \<open>len p\<close> bytes from \<open>off\<close> is written to the
  front of \<open>p\<close>, and end of data is signalled when the window is shorter than \<open>p\<close> or when
  an empty buffer is read exactly at the end.
\<close>

definition readat_window :: "byte list \<Rightarrow> byte list \<Rightarrow> nat \<Rightarrow> byte list" where
  "readat_window d p at = take (length p) (drop at d)"

definition readat_spec :: "go_error \<Rightarrow> byte list \<Rightarrow> byte list \<Rightarrow> int \<Rightarrow> read_result" where
  "readat_spec einv d p off =
     (if off < 0 \<or> int (length d) < off then (p, 0, Some einv)
      else
        (let at = nat off; w = readat_window d p at in
         (w @ drop (length w) p, length w,
          if length d < at + length p \<or> (p = [] \<and> at = length d) then Some EOF else None)))"

text \<open>
  A value \<open>r\<close> is a sized source of the bytes \<open>data r\<close> when its length fits a Go
  \<open>int\<close>, \<open>Size\<close> reports it and every \<open>ReadAt\<close> behaves as \<open>readat_spec\<close>; \<open>einv\<close>
  is the source's own invalid-offset error value.
\<close>

definition reader_contract ::
  "'r SizeReaderAt \<Rightarrow> go_error \<Rightarrow> ('r \<Rightarrow> byte list) \<Rightarrow> 'r \<Rightarrow> bool" where
  "reader_contract ops einv data r \<longleftrightarrow>
     go_len_ok (data r) \<and> Size ops r = int64_len (data r) \<and>
     (\<forall>p off. ReadAt ops r p off = readat_spec einv (data r) p (sint off))"

text \<open>
  The documented contract of Go's \<open>io.ReaderAt\<close>: \<open>0 \<le> n \<le> len(p)\<close>, and a read that
  returns fewer than \<open>len(p)\<close> bytes returns a non-nil error.
\<close>

definition io_readerat_rules :: "byte list \<Rightarrow> read_result \<Rightarrow> bool" where
  "io_readerat_rules p r \<longleftrightarrow>
     rr_n r \<le> length p \<and> length (rr_buf r) = length p \<and>
     (rr_n r < length p \<longrightarrow> rr_err r \<noteq> None)"

section \<open>Lemmas on the specification\<close>

lemma readat_window_length [simp]:
  "length (readat_window d p at) = min (length p) (length d - at)"
  by (simp add: readat_window_def)

lemma readat_spec_invalid:
  "off < 0 \<or> int (length d) < off \<Longrightarrow> readat_spec einv d p off = (p, 0, Some einv)"
  by (simp add: readat_spec_def)

lemma readat_spec_valid:
  assumes "0 \<le> off" and "off \<le> int (length d)"
  shows "readat_spec einv d p off =
     (let at = nat off; n = min (length p) (length d - at) in
      (take n (drop at d) @ drop n p, n,
       if length d < at + length p \<or> (p = [] \<and> at = length d) then Some EOF else None))"
  using assms by (simp add: readat_spec_def readat_window_def Let_def min_def)

lemma readat_spec_n_le:
  "rr_n (readat_spec einv d p off) \<le> length p"
  by (simp add: readat_spec_def Let_def)

lemma readat_spec_n_room:
  "0 \<le> off \<Longrightarrow> rr_n (readat_spec einv d p off) \<le> length d - nat off"
  by (simp add: readat_spec_def Let_def)

lemma readat_spec_buf_length [simp]:
  "length (rr_buf (readat_spec einv d p off)) = length p"
  by (simp add: readat_spec_def Let_def)

lemma readat_spec_short_eof:
  "rr_n (readat_spec einv d p off) < length p \<Longrightarrow> rr_err (readat_spec einv d p off) \<noteq> None"
  by (auto simp add: readat_spec_def Let_def min_def split: if_splits)

section \<open>The code shape of both views\<close>

text \<open>
  \<open>bytes.View.ReadAt\<close> and \<open>strings.View.ReadAt\<close> run the same guards on \<open>int64\<close>
  values and differ only in the bytes they copy from. On a source whose length fits a Go
  \<open>int\<close>, that body computes \<open>readat_spec\<close> at the offset read as a signed integer:
  the signed comparisons are the integer ones, \<open>off == limit\<close> is integer equality, and
  slicing at \<open>unat off\<close> is slicing at the non-negative offset.
\<close>

lemma readat_code_refines:
  assumes wf: "go_len_ok d"
  shows "(if off <s 0 \<or> int64_len d <s off then (p, 0, Some e)
          else if length p = 0 \<and> off = int64_len d then (p, 0, Some EOF)
          else (case go_copy p (drop (unat off) d) of (p', n) \<Rightarrow>
                  if n < length p then (p', n, Some EOF) else (p', n, None)))
         = readat_spec e d p (sint off)"
proof (cases "sint off < 0 \<or> int (length d) < sint off")
  case True
  with wf show ?thesis by (auto simp add: go_simps readat_spec_invalid)
next
  case False
  then have lo: "0 \<le> sint off" and hi: "sint off \<le> int (length d)" by auto
  define at where "at = nat (sint off)"
  have unat_at: "unat off = at" using lo by (simp add: at_def sint_nonneg_unat [symmetric])
  have at_le: "at \<le> length d" using hi lo by (simp add: at_def)
  have eq: "off = int64_len d \<longleftrightarrow> at = length d"
    using wf lo by (simp add: int64_len_eq_iff at_def nat_eq_iff)
  have guard: "\<not> (off <s 0 \<or> int64_len d <s off)"
    using False wf by (simp add: go_simps)
  show ?thesis
    using guard eq at_le lo hi
    by (auto simp add: readat_spec_def readat_window_def go_copy_def Let_def unat_at at_def [symmetric] min_def)
qed
lemma readat_spec_invalid_iff:
  assumes "einv \<noteq> EOF"
  shows "readat_spec einv d p off = (p, 0, Some einv) \<longleftrightarrow> off < 0 \<or> int (length d) < off"
  using assms by (auto simp add: readat_spec_def Let_def split: if_splits)

lemma readat_spec_content:
  assumes "0 \<le> off" and "off \<le> int (length d)"
    and "readat_spec einv d p off = (r, n, e)"
  shows "n = min (length p) (length d - nat off) \<and> r = take n (drop (nat off) d) @ drop n p"
  using assms by (auto simp add: readat_spec_valid Let_def)

lemma readat_spec_status:
  assumes "0 \<le> off" and "off \<le> int (length d)"
  shows "rr_err (readat_spec einv d p off) =
    (if length d < nat off + length p \<or> (p = [] \<and> nat off = length d) then Some EOF else None)"
  using assms by (simp add: readat_spec_valid Let_def)

lemmas readat_spec_facts =
  readat_spec_n_le readat_spec_buf_length readat_spec_short_eof

end
