(* ===== verification/Bytes_View.thy ===== *)
theory Bytes_View
  imports Reader_Interface
begin

text \<open>
  \<open>src/bytes/view.go\<close>: a read-only view of a byte slice. The struct \<open>View\<close> is a record
  holding the slice; \<open>NewView\<close> wraps it without copying; \<open>Size\<close> is
  \<open>int64(len(v.b))\<close>; \<open>ReadAt\<close> is translated line by line, with \<open>int64\<close> offsets as
  64-bit words, Go's signed comparisons as \<open><s\<close>, the slice expression \<open>v.b[off:]\<close> as
  \<open>drop (unat off)\<close> and the builtin \<open>copy\<close> as \<open>go_copy\<close>. The lemmas show that
  \<open>ReadAt\<close> implements the abstract positioned read \<open>readat_spec\<close>, that a view is a
  \<open>SizeReaderAt\<close> in the sense of \<open>reader_contract\<close>, and the behaviour on every
  branch: invalid offsets, end of data, full reads.
\<close>

section \<open>The view\<close>

record bytes_View =
  bytes_b :: "byte list"

definition bytes_NewView :: "byte list \<Rightarrow> bytes_View" where
  "bytes_NewView b = \<lparr>bytes_b = b\<rparr>"

definition bytes_errInvalidOffset :: go_error where
  "bytes_errInvalidOffset = ErrInvalidOffset PkgBytes"

definition bytes_Size :: "bytes_View \<Rightarrow> int64" where
  "bytes_Size v = int64_len (bytes_b v)"

definition bytes_ReadAt :: "bytes_View \<Rightarrow> byte list \<Rightarrow> int64 \<Rightarrow> read_result" where
  "bytes_ReadAt v p off =
     (let limit = bytes_Size v in
      if off <s 0 \<or> limit <s off then (p, 0, Some bytes_errInvalidOffset)
      else
        (let space = length p in
         if space = 0 \<and> off = limit then (p, 0, Some EOF)
         else
           (case go_copy p (drop (unat off) (bytes_b v)) of (p', n) \<Rightarrow>
              if n < space then (p', n, Some EOF) else (p', n, None))))"

text \<open>The method set of \<open>*View\<close>: it satisfies \<open>SizeReaderAt\<close> and is no \<open>io.Closer\<close>.\<close>

definition bytes_ops :: "bytes_View SizeReaderAt" where
  "bytes_ops = \<lparr>ReadAt = bytes_ReadAt, Size = bytes_Size, Closer = (\<lambda>_. None)\<rparr>"

lemmas bytes_eval = bytes_NewView_def bytes_ReadAt_def bytes_Size_def bytes_errInvalidOffset_def
  int64_len_def go_copy_def go_simps

section \<open>ReadAt implements the abstract positioned read\<close>

lemma bytes_ReadAt_code:
  "bytes_ReadAt v p off =
     (if off <s 0 \<or> int64_len (bytes_b v) <s off then (p, 0, Some bytes_errInvalidOffset)
      else if length p = 0 \<and> off = int64_len (bytes_b v) then (p, 0, Some EOF)
      else (case go_copy p (drop (unat off) (bytes_b v)) of (p', n) \<Rightarrow>
              if n < length p then (p', n, Some EOF) else (p', n, None)))"
  by (simp add: bytes_ReadAt_def bytes_Size_def Let_def)

text \<open>C1. On a view whose slice has a Go length, \<open>ReadAt\<close> at the \<open>int64\<close> offset
  \<open>off\<close> returns exactly what the abstract positioned read of the slice returns at the
  integer \<open>sint off\<close>: the 64-bit guards, the \<open>off == limit\<close> test and the slicing
  agree with their integer meaning.\<close>

theorem bytes_ReadAt_refines:
  assumes "go_len_ok b"
  shows "bytes_ReadAt (bytes_NewView b) p off =
         readat_spec bytes_errInvalidOffset b p (sint off)"
proof -
  have nv: "bytes_b (bytes_NewView b) = b" by (simp add: bytes_NewView_def)
  show ?thesis
    using readat_code_refines [OF assms, of off p bytes_errInvalidOffset]
    by (simp only: bytes_ReadAt_def bytes_Size_def Let_def nv)
qed

theorem bytes_ReadAt_refines_witness:
  "go_len_ok [1, 2, 3, 4, 5 :: byte] \<and>
   bytes_ReadAt (bytes_NewView [1, 2, 3, 4, 5]) [0, 0, 0] 2 =
     readat_spec bytes_errInvalidOffset [1, 2, 3, 4, 5] [0, 0, 0] (sint (2 :: int64))"
proof -
  have wf: "go_len_ok [1, 2, 3, 4, 5 :: byte]" by (simp add: go_len_ok_def)
  show ?thesis using wf bytes_ReadAt_refines [OF wf, of "[0, 0, 0]" 2] by simp
qed

section \<open>Behaviour on every branch\<close>

lemma bytes_b_NewView [simp]: "bytes_b (bytes_NewView b) = b"
  by (simp add: bytes_NewView_def)

lemma bytes_errInvalidOffset_not_EOF [simp]: "bytes_errInvalidOffset \<noteq> EOF"
  by (simp add: bytes_errInvalidOffset_def)

lemma bytes_ReadAt_spec:
  "go_len_ok b \<Longrightarrow>
   bytes_ReadAt (bytes_NewView b) p off = readat_spec bytes_errInvalidOffset b p (sint off)"
  using readat_code_refines [of b off p bytes_errInvalidOffset]
  by (simp only: bytes_ReadAt_code bytes_b_NewView)

text \<open>C2. An offset below zero or past the end is rejected with the package's
  \<open>errInvalidOffset\<close>, no byte is read and the buffer is untouched; and this is the only
  way \<open>ReadAt\<close> returns that error with an untouched buffer and no bytes.\<close>

theorem bytes_ReadAt_invalid_offset:
  assumes "go_len_ok b"
  shows "bytes_ReadAt (bytes_NewView b) p off = (p, 0, Some bytes_errInvalidOffset) \<longleftrightarrow>
         sint off < 0 \<or> int (length b) < sint off"
  using assms by (simp add: bytes_ReadAt_spec readat_spec_invalid_iff)

theorem bytes_ReadAt_invalid_offset_witness:
  "go_len_ok [1, 2, 3 :: byte] \<and>
   bytes_ReadAt (bytes_NewView [1, 2, 3]) [0] 4 = ([0], 0, Some bytes_errInvalidOffset) \<and>
   (sint (4 :: int64) < 0 \<or> int (length [1, 2, 3 :: byte]) < sint (4 :: int64))"
proof -
  have wf: "go_len_ok [1, 2, 3 :: byte]" by (simp add: go_len_ok_def)
  show ?thesis using wf bytes_ReadAt_invalid_offset [OF wf, of "[0]" 4] by simp
qed

text \<open>C3. At a valid offset \<open>o\<close>, \<open>ReadAt\<close> reads \<open>n = min(len p, len b - o)\<close> bytes,
  the first \<open>n\<close> bytes of the buffer become \<open>b[o:o+n]\<close> and the rest of the buffer keeps
  its contents.\<close>

theorem bytes_ReadAt_content:
  assumes "go_len_ok b" and "0 \<le> sint off" and "sint off \<le> int (length b)"
    and "bytes_ReadAt (bytes_NewView b) p off = (r, n, e)"
  shows "n = min (length p) (length b - nat (sint off)) \<and>
         r = take n (drop (nat (sint off)) b) @ drop n p"
  using assms by (simp add: bytes_ReadAt_spec readat_spec_content)

theorem bytes_ReadAt_content_witness:
  "go_len_ok [1, 2, 3, 4, 5 :: byte] \<and> 0 \<le> sint (3 :: int64) \<and>
   sint (3 :: int64) \<le> int (length [1, 2, 3, 4, 5 :: byte]) \<and>
   bytes_ReadAt (bytes_NewView [1, 2, 3, 4, 5]) [0, 0, 0, 0] 3 = ([4, 5, 0, 0], 2, Some EOF) \<and>
   2 = min (length [0, 0, 0, 0 :: byte]) (length [1, 2, 3, 4, 5 :: byte] - nat (sint (3 :: int64))) \<and>
   [4, 5, 0, 0 :: byte] =
     take 2 (drop (nat (sint (3 :: int64))) [1, 2, 3, 4, 5]) @ drop 2 [0, 0, 0, 0]"
proof -
  have wf: "go_len_ok [1, 2, 3, 4, 5 :: byte]" by (simp add: go_len_ok_def)
  have lo: "0 \<le> sint (3 :: int64)" by simp
  have hi: "sint (3 :: int64) \<le> int (length [1, 2, 3, 4, 5 :: byte])" by simp
  have run: "bytes_ReadAt (bytes_NewView [1, 2, 3, 4, 5]) [0, 0, 0, 0] 3 = ([4, 5, 0, 0], 2, Some EOF)"
    by (simp add: bytes_eval)
  from wf lo hi run show ?thesis
    using bytes_ReadAt_content [OF wf lo hi run] by blast
qed

text \<open>C4. At a valid offset, \<open>ReadAt\<close> signals \<open>io.EOF\<close> exactly when the buffer
  reaches past the end of the data, or when an empty buffer is read exactly at the end;
  a buffer that fits before the end is filled and the error is \<open>nil\<close>.\<close>

theorem bytes_ReadAt_eof:
  assumes "go_len_ok b" and "0 \<le> sint off" and "sint off \<le> int (length b)"
  shows "rr_err (bytes_ReadAt (bytes_NewView b) p off) =
    (if length b < nat (sint off) + length p \<or> (p = [] \<and> nat (sint off) = length b)
     then Some EOF else None)"
  using assms by (simp add: bytes_ReadAt_spec readat_spec_status)

theorem bytes_ReadAt_eof_witness:
  "go_len_ok [1, 2, 3, 4, 5 :: byte] \<and> 0 \<le> sint (5 :: int64) \<and>
   sint (5 :: int64) \<le> int (length [1, 2, 3, 4, 5 :: byte]) \<and>
   rr_err (bytes_ReadAt (bytes_NewView [1, 2, 3, 4, 5]) [] 5) = Some EOF"
proof -
  have wf: "go_len_ok [1, 2, 3, 4, 5 :: byte]" by (simp add: go_len_ok_def)
  show ?thesis using wf bytes_ReadAt_eof [OF wf, of 5 "[]"] by simp
qed

text \<open>C5. Whatever the view and the offset, \<open>ReadAt\<close> keeps the rules Go documents for
  \<open>io.ReaderAt\<close>: it never reports more bytes than the buffer holds, writes only inside the
  buffer, and a short read always comes with a non-nil error.\<close>

theorem bytes_ReadAt_io_rules:
  "io_readerat_rules p (bytes_ReadAt v p off)"
  by (auto simp add: io_readerat_rules_def bytes_ReadAt_code go_copy_def Let_def)

section \<open>The view is a SizeReaderAt\<close>

lemma bytes_NewView_contract:
  "go_len_ok b \<Longrightarrow> reader_contract bytes_ops bytes_errInvalidOffset bytes_b (bytes_NewView b)"
  by (simp add: reader_contract_def bytes_ops_def bytes_Size_def bytes_ReadAt_spec)


end
