(* ===== verification/Strings_View.thy ===== *)
theory Strings_View
  imports Bytes_View
begin

text \<open>
  \<open>src/strings/view.go\<close>: a read-only view of a Go string, with the same methods as the
  byte view. A Go string is a sequence of bytes; here it is an Isabelle \<open>string\<close>, a list
  of 8-bit \<open>char\<close>s, and \<open>copy(p, v.s[off:])\<close> copies the bytes \<open>of_char\<close> of the
  characters (\<open>go_copy_str\<close>). The lemmas show that \<open>ReadAt\<close> implements the abstract
  positioned read of the string's bytes, that the view meets the \<open>SizeReaderAt\<close>
  contract, and that it behaves as the byte view of the same bytes except that its
  invalid-offset error is its own package's value.
\<close>

section \<open>The view\<close>

record strings_View =
  strings_s :: string

definition strings_NewView :: "string \<Rightarrow> strings_View" where
  "strings_NewView s = \<lparr>strings_s = s\<rparr>"

definition strings_errInvalidOffset :: go_error where
  "strings_errInvalidOffset = ErrInvalidOffset PkgStrings"

definition strings_Size :: "strings_View \<Rightarrow> int64" where
  "strings_Size v = int64_len (strings_s v)"

definition strings_ReadAt :: "strings_View \<Rightarrow> byte list \<Rightarrow> int64 \<Rightarrow> read_result" where
  "strings_ReadAt v p off =
     (let limit = strings_Size v in
      if off <s 0 \<or> limit <s off then (p, 0, Some strings_errInvalidOffset)
      else
        (let space = length p in
         if space = 0 \<and> off = limit then (p, 0, Some EOF)
         else
           (case go_copy_str p (drop (unat off) (strings_s v)) of (p', n) \<Rightarrow>
              if n < space then (p', n, Some EOF) else (p', n, None))))"

definition strings_ops :: "strings_View SizeReaderAt" where
  "strings_ops = \<lparr>ReadAt = strings_ReadAt, Size = strings_Size, Closer = (\<lambda>_. None)\<rparr>"

text \<open>The bytes a string view serves.\<close>

definition strings_bytes :: "strings_View \<Rightarrow> byte list" where
  "strings_bytes v = map of_char (strings_s v)"

lemmas strings_eval = strings_NewView_def strings_ReadAt_def strings_Size_def
  strings_errInvalidOffset_def go_copy_str_def int64_len_def go_copy_def go_simps

section \<open>Lemmas\<close>

lemma strings_s_NewView [simp]: "strings_s (strings_NewView s) = s"
  by (simp add: strings_NewView_def)

lemma strings_errInvalidOffset_not_EOF [simp]: "strings_errInvalidOffset \<noteq> EOF"
  by (simp add: strings_errInvalidOffset_def)

lemma int64_len_map [simp]: "int64_len (map f xs) = int64_len xs"
  by (simp add: int64_len_def)

lemma go_len_ok_map [simp]: "go_len_ok (map f xs) = go_len_ok xs"
  by (simp add: go_len_ok_def)

lemma strings_ReadAt_code:
  "strings_ReadAt v p off =
     (if off <s 0 \<or> int64_len (strings_bytes v) <s off then (p, 0, Some strings_errInvalidOffset)
      else if length p = 0 \<and> off = int64_len (strings_bytes v) then (p, 0, Some EOF)
      else (case go_copy p (drop (unat off) (strings_bytes v)) of (p', n) \<Rightarrow>
              if n < length p then (p', n, Some EOF) else (p', n, None)))"
  by (simp add: strings_ReadAt_def strings_Size_def strings_bytes_def go_copy_str_def
      drop_map Let_def)

lemma strings_ReadAt_spec:
  "go_len_ok s \<Longrightarrow>
   strings_ReadAt (strings_NewView s) p off =
     readat_spec strings_errInvalidOffset (map of_char s) p (sint off)"
  using readat_code_refines [of "map of_char s" off p strings_errInvalidOffset]
  by (simp only: strings_ReadAt_code strings_bytes_def strings_s_NewView go_len_ok_map)

section \<open>Properties\<close>

text \<open>C6. On a string with a Go length, \<open>strings.View.ReadAt\<close> at the \<open>int64\<close> offset
  \<open>off\<close> is the abstract positioned read of the string's bytes at \<open>sint off\<close>.\<close>

theorem strings_ReadAt_refines:
  assumes "go_len_ok s"
  shows "strings_ReadAt (strings_NewView s) p off =
         readat_spec strings_errInvalidOffset (map of_char s) p (sint off)"
  using assms by (rule strings_ReadAt_spec)

theorem strings_ReadAt_refines_witness:
  "go_len_ok ''hello'' \<and>
   strings_ReadAt (strings_NewView ''hello'') [0, 0] 3 =
     readat_spec strings_errInvalidOffset (map of_char ''hello'') [0, 0] (sint (3 :: int64))"
proof -
  have wf: "go_len_ok ''hello''" by (simp add: go_len_ok_def)
  show ?thesis using wf strings_ReadAt_refines [OF wf, of "[0, 0]" 3] by simp
qed

text \<open>C7. A string view and a byte view of the same bytes return the same buffer, the
  same count and the same status for every buffer and every offset, except that an
  invalid offset is reported with the \<open>strings\<close> package's error value instead of the
  \<open>bytes\<close> one. No length bound is needed: the two bodies agree line by line.\<close>

theorem strings_bytes_equiv:
  "strings_ReadAt (strings_NewView s) p off =
   (case bytes_ReadAt (bytes_NewView (map of_char s)) p off of (r, n, e) \<Rightarrow>
      (r, n, if e = Some bytes_errInvalidOffset then Some strings_errInvalidOffset else e))"
  by (auto simp add: strings_ReadAt_code bytes_ReadAt_code strings_bytes_def go_copy_def Let_def
      bytes_errInvalidOffset_def)

lemma strings_NewView_contract:
  "go_len_ok s \<Longrightarrow>
   reader_contract strings_ops strings_errInvalidOffset strings_bytes (strings_NewView s)"
  by (simp add: reader_contract_def strings_ops_def strings_Size_def strings_bytes_def
      strings_ReadAt_spec)


end
