(* ===== verification/Consumer.thy ===== *)
theory Consumer
  imports Reader_Interface
begin

text \<open>
  \<open>src/consumer.go\<close>: \<open>Consumer\<close> turns any \<open>SizeReaderAt\<close> into a forward-only stream.
  The struct is a record over the source type \<open>'r\<close>; every method is a function that
  takes the method table of the source (the interface's dynamic dispatch) and the
  consumer, and returns the updated consumer with the method's results. The
  \<open>io.Closer\<close> type assertion of \<open>Close\<close> is the optional \<open>Closer\<close> method.

  A call of any method is a \<open>consumer_call\<close> and \<open>Consumer_step\<close> dispatches it;
  \<open>consumer_reachable\<close> is the set of states a consumer can be in when it is created
  and reset only with sources that meet \<open>reader_contract\<close>. The invariant
  \<open>consumer_inv\<close> (the cursor lies in \<open>[0, limit]\<close>, and an open consumer's limit is the
  size of its source) holds in every reachable state, by rule induction. The abstract
  stream \<open>stream\<close> is what the consumer promises (spec section 4.2), and each method
  refines the matching abstract operation.
\<close>

section \<open>The consumer\<close>

record 'r Consumer =
  c_r :: 'r
  c_i :: int64
  c_limit :: int64
  c_closed :: bool

definition errClosed :: go_error where
  "errClosed = ErrClosed"

definition NewConsumer :: "'r SizeReaderAt \<Rightarrow> 'r \<Rightarrow> 'r Consumer" where
  "NewConsumer ops r = \<lparr>c_r = r, c_i = 0, c_limit = Size ops r, c_closed = False\<rparr>"

definition Consumer_Read ::
  "'r SizeReaderAt \<Rightarrow> 'r Consumer \<Rightarrow> byte list \<Rightarrow> 'r Consumer \<times> read_result" where
  "Consumer_Read ops c p =
     (if c_closed c then (c, (p, 0, Some errClosed))
      else
        (case ReadAt ops (c_r c) p (c_i c) of (p', n, err) \<Rightarrow>
           (c\<lparr>c_i := c_i c + word_of_nat n\<rparr>, (p', n, err))))"

definition Consumer_Reset :: "'r SizeReaderAt \<Rightarrow> 'r Consumer \<Rightarrow> 'r \<Rightarrow> 'r Consumer" where
  "Consumer_Reset ops c r = c\<lparr>c_limit := Size ops r, c_r := r, c_i := 0, c_closed := False\<rparr>"

definition Consumer_Size :: "'r Consumer \<Rightarrow> int64" where
  "Consumer_Size c = c_limit c"

definition Consumer_Rewind :: "'r Consumer \<Rightarrow> 'r Consumer" where
  "Consumer_Rewind c = c\<lparr>c_i := 0\<rparr>"

definition Consumer_Close ::
  "'r SizeReaderAt \<Rightarrow> 'r Consumer \<Rightarrow> 'r Consumer \<times> go_error option" where
  "Consumer_Close ops c =
     (if c_closed c then (c, Some errClosed)
      else
        (let c' = c\<lparr>c_closed := True\<rparr> in
         case Closer ops (c_r c') of
           None \<Rightarrow> (c', None)
         | Some (r', err) \<Rightarrow> (c'\<lparr>c_r := r'\<rparr>, err)))"

section \<open>Calls and runs\<close>

datatype 'r consumer_call =
    CallRead "byte list"
  | CallReset 'r
  | CallSize
  | CallRewind
  | CallClose

datatype consumer_ret =
    RetRead read_result
  | RetUnit
  | RetSize int64
  | RetClose "go_error option"

fun Consumer_step ::
  "'r SizeReaderAt \<Rightarrow> 'r Consumer \<Rightarrow> 'r consumer_call \<Rightarrow> 'r Consumer \<times> consumer_ret" where
  "Consumer_step ops c (CallRead p) = (case Consumer_Read ops c p of (c', r) \<Rightarrow> (c', RetRead r))"
| "Consumer_step ops c (CallReset r) = (Consumer_Reset ops c r, RetUnit)"
| "Consumer_step ops c CallSize = (c, RetSize (Consumer_Size c))"
| "Consumer_step ops c CallRewind = (Consumer_Rewind c, RetUnit)"
| "Consumer_step ops c CallClose = (case Consumer_Close ops c of (c', e) \<Rightarrow> (c', RetClose e))"

fun Consumer_run ::
  "'r SizeReaderAt \<Rightarrow> 'r Consumer \<Rightarrow> 'r consumer_call list \<Rightarrow> 'r Consumer \<times> consumer_ret list" where
  "Consumer_run ops c [] = (c, [])"
| "Consumer_run ops c (x # xs) =
     (case Consumer_step ops c x of (c', y) \<Rightarrow>
        (case Consumer_run ops c' xs of (c'', ys) \<Rightarrow> (c'', y # ys)))"

text \<open>The byte count a call reports: \<open>n\<close> of a \<open>Read\<close>, nothing for the others.\<close>

fun ret_count :: "consumer_ret \<Rightarrow> nat" where
  "ret_count (RetRead r) = rr_n r"
| "ret_count _ = 0"

text \<open>The bytes a call delivers: the first \<open>n\<close> bytes of the buffer of a \<open>Read\<close>.\<close>

fun ret_bytes :: "consumer_ret \<Rightarrow> byte list" where
  "ret_bytes (RetRead r) = take (rr_n r) (rr_buf r)"
| "ret_bytes _ = []"

section \<open>Reachable states and the invariant\<close>

inductive consumer_reachable ::
  "'r SizeReaderAt \<Rightarrow> go_error \<Rightarrow> ('r \<Rightarrow> byte list) \<Rightarrow> 'r Consumer \<Rightarrow> bool"
  for ops einv data where
  new: "reader_contract ops einv data r \<Longrightarrow> consumer_reachable ops einv data (NewConsumer ops r)"
| read: "consumer_reachable ops einv data c \<Longrightarrow>
    consumer_reachable ops einv data (fst (Consumer_Read ops c p))"
| reset: "consumer_reachable ops einv data c \<Longrightarrow> reader_contract ops einv data r \<Longrightarrow>
    consumer_reachable ops einv data (Consumer_Reset ops c r)"
| rewind: "consumer_reachable ops einv data c \<Longrightarrow>
    consumer_reachable ops einv data (Consumer_Rewind c)"
| close: "consumer_reachable ops einv data c \<Longrightarrow>
    consumer_reachable ops einv data (fst (Consumer_Close ops c))"

definition consumer_inv ::
  "'r SizeReaderAt \<Rightarrow> go_error \<Rightarrow> ('r \<Rightarrow> byte list) \<Rightarrow> 'r Consumer \<Rightarrow> bool" where
  "consumer_inv ops einv data c \<longleftrightarrow>
     0 \<le> sint (c_i c) \<and> sint (c_i c) \<le> sint (c_limit c) \<and>
     (\<not> c_closed c \<longrightarrow>
        reader_contract ops einv data (c_r c) \<and> c_limit c = Size ops (c_r c))"

section \<open>Lemmas on the methods\<close>

lemma contract_ReadAt:
  "reader_contract ops einv data r \<Longrightarrow> ReadAt ops r p off = readat_spec einv (data r) p (sint off)"
  by (simp add: reader_contract_def)

lemma contract_Size:
  "reader_contract ops einv data r \<Longrightarrow> sint (Size ops r) = int (length (data r))"
  by (simp add: reader_contract_def)

lemma contract_len_ok: "reader_contract ops einv data r \<Longrightarrow> go_len_ok (data r)"
  by (simp add: reader_contract_def)

lemma Consumer_Read_closed:
  "c_closed c \<Longrightarrow> Consumer_Read ops c p = (c, (p, 0, Some errClosed))"
  by (simp add: Consumer_Read_def)

lemma Consumer_Read_open:
  assumes "consumer_inv ops einv data c" and "\<not> c_closed c"
  shows "Consumer_Read ops c p =
     (let r = readat_spec einv (data (c_r c)) p (sint (c_i c)) in
      (c\<lparr>c_i := c_i c + word_of_nat (rr_n r)\<rparr>, r))"
  using assms
  by (auto simp add: Consumer_Read_def consumer_inv_def contract_ReadAt Let_def split: prod.splits)

text \<open>The cursor of an open consumer in the invariant advances by the count read, without
  wrapping, and stays within the data.\<close>

lemma Consumer_Read_advance:
  assumes inv: "consumer_inv ops einv data c" and opn: "\<not> c_closed c"
  shows "sint (c_i (fst (Consumer_Read ops c p))) =
           sint (c_i c) + int (rr_n (snd (Consumer_Read ops c p))) \<and>
         sint (c_i c) + int (rr_n (snd (Consumer_Read ops c p))) \<le> int (length (data (c_r c)))"
proof -
  let ?d = "data (c_r c)" and ?r = "readat_spec einv (data (c_r c)) p (sint (c_i c))"
  from inv opn have lo: "0 \<le> sint (c_i c)"
    and hi: "sint (c_i c) \<le> int (length ?d)" and ok: "go_len_ok ?d"
    by (auto simp add: consumer_inv_def contract_Size contract_len_ok)
  have room: "rr_n ?r \<le> length ?d - nat (sint (c_i c))"
    using lo by (rule readat_spec_n_room)
  with lo hi have within: "sint (c_i c) + int (rr_n ?r) \<le> int (length ?d)" by linarith
  with ok have "sint (c_i c) + int (rr_n ?r) < 2 ^ 63" by (simp add: go_len_ok_def)
  with lo have "sint (c_i c + word_of_nat (rr_n ?r)) = sint (c_i c) + int (rr_n ?r)"
    by (rule sint_add_of_nat)
  with within show ?thesis by (simp add: Consumer_Read_open [OF inv opn] Let_def)
qed

lemma consumer_inv_new:
  "reader_contract ops einv data r \<Longrightarrow> consumer_inv ops einv data (NewConsumer ops r)"
  by (simp add: consumer_inv_def NewConsumer_def contract_Size)

lemma consumer_inv_read:
  assumes "consumer_inv ops einv data c"
  shows "consumer_inv ops einv data (fst (Consumer_Read ops c p))"
proof (cases "c_closed c")
  case True
  with assms show ?thesis by (simp add: Consumer_Read_closed)
next
  case False
  from Consumer_Read_advance [OF assms False, of p] assms False show ?thesis
    by (auto simp add: consumer_inv_def Consumer_Read_open [OF assms False] Let_def contract_Size)
qed

lemma consumer_inv_reset:
  "reader_contract ops einv data r \<Longrightarrow> consumer_inv ops einv data (Consumer_Reset ops c r)"
  by (simp add: consumer_inv_def Consumer_Reset_def contract_Size)

lemma consumer_inv_rewind:
  "consumer_inv ops einv data c \<Longrightarrow> consumer_inv ops einv data (Consumer_Rewind c)"
  by (simp add: consumer_inv_def Consumer_Rewind_def)

lemma Consumer_Close_keeps:
  "c_i (fst (Consumer_Close ops c)) = c_i c \<and> c_limit (fst (Consumer_Close ops c)) = c_limit c \<and>
   c_closed (fst (Consumer_Close ops c))"
  by (auto simp add: Consumer_Close_def Let_def split: option.splits)

lemma consumer_inv_close:
  "consumer_inv ops einv data c \<Longrightarrow> consumer_inv ops einv data (fst (Consumer_Close ops c))"
  using Consumer_Close_keeps [of ops c] by (simp add: consumer_inv_def)

lemma consumer_reachable_inv:
  "consumer_reachable ops einv data c \<Longrightarrow> consumer_inv ops einv data c"
proof (induction rule: consumer_reachable.induct)
  case (new r)
  then show ?case by (rule consumer_inv_new)
next
  case (read c p)
  then show ?case by (simp add: consumer_inv_read)
next
  case (reset c r)
  then show ?case by (simp add: consumer_inv_reset)
next
  case (rewind c)
  then show ?case by (simp add: consumer_inv_rewind)
next
  case (close c)
  then show ?case by (simp add: consumer_inv_close)
qed

lemma Consumer_step_fst [simp]:
  "fst (Consumer_step ops c (CallRead p)) = fst (Consumer_Read ops c p)"
  "fst (Consumer_step ops c CallClose) = fst (Consumer_Close ops c)"
  by (simp_all split: prod.splits)

lemma consumer_reachable_read_step:
  "consumer_reachable ops einv data c \<Longrightarrow> Consumer_Read ops c p = (c', r) \<Longrightarrow>
   consumer_reachable ops einv data c'"
  using consumer_reachable.read [of ops einv data c p] by simp

text \<open>One \<open>Read\<close> from an open reachable state: the source stays, the consumer stays open
  and reachable, the cursor advances by the count, and the count and the bytes delivered
  are those of the source's data at the cursor.\<close>

lemma Consumer_Read_open_step:
  assumes reach: "consumer_reachable ops einv data c" and opn: "\<not> c_closed c"
    and step: "Consumer_Read ops c p = (c1, r)"
  shows "c_r c1 = c_r c \<and> \<not> c_closed c1 \<and> c_limit c1 = c_limit c \<and>
         consumer_reachable ops einv data c1 \<and>
         r = readat_spec einv (data (c_r c)) p (sint (c_i c)) \<and>
         sint (c_i c1) = sint (c_i c) + int (rr_n r) \<and>
         rr_n r = min (length p) (length (data (c_r c)) - nat (sint (c_i c))) \<and>
         take (rr_n r) (rr_buf r) = take (rr_n r) (drop (nat (sint (c_i c))) (data (c_r c)))"
proof -
  have inv: "consumer_inv ops einv data c" using reach by (rule consumer_reachable_inv)
  then have lo: "0 \<le> sint (c_i c)" and hi: "sint (c_i c) \<le> int (length (data (c_r c)))"
    using opn by (auto simp add: consumer_inv_def contract_Size)
  have eq: "c1 = c\<lparr>c_i := c_i c + word_of_nat (rr_n r)\<rparr>"
    and r: "r = readat_spec einv (data (c_r c)) p (sint (c_i c))"
    using step Consumer_Read_open [OF inv opn, of p] by (auto simp add: Let_def)
  have adv: "sint (c_i c1) = sint (c_i c) + int (rr_n r)"
    using Consumer_Read_advance [OF inv opn, of p] step by simp
  have reach1: "consumer_reachable ops einv data c1"
    using reach step by (rule consumer_reachable_read_step)
  obtain buf n e where re: "r = (buf, n, e)" by (metis prod.exhaust)
  have content: "n = min (length p) (length (data (c_r c)) - nat (sint (c_i c))) \<and>
      buf = take n (drop (nat (sint (c_i c))) (data (c_r c))) @ drop n p"
  proof -
    have "readat_spec einv (data (c_r c)) p (sint (c_i c)) = (buf, n, e)" using r re by simp
    then show ?thesis by (rule readat_spec_content [OF lo hi])
  qed
  have frame: "c_r c1 = c_r c \<and> \<not> c_closed c1 \<and> c_limit c1 = c_limit c"
    using eq opn by simp
  have tk: "take (rr_n r) (rr_buf r) = take (rr_n r) (drop (nat (sint (c_i c))) (data (c_r c)))"
    using content re by simp
  have cnt: "rr_n r = min (length p) (length (data (c_r c)) - nat (sint (c_i c)))"
    using content re by simp
  from frame reach1 r adv cnt tk show ?thesis by (intro conjI) simp_all
qed

lemma consumer_cursor_facts:
  assumes "consumer_reachable ops einv data c" and "\<not> c_closed c"
  shows "0 \<le> sint (c_i c) \<and> sint (c_i c) \<le> int (length (data (c_r c)))"
  using consumer_reachable_inv [OF assms(1)] assms(2)
  by (auto simp add: consumer_inv_def contract_Size)

section \<open>The lifecycle\<close>

text \<open>C8. \<open>Close\<close> on a consumer that is already closed fails with \<open>errClosed\<close> and
  changes nothing: after any \<open>Close\<close>, whatever it returned, a second \<open>Close\<close> is
  rejected.\<close>

theorem Consumer_Close_twice:
  assumes "Consumer_Close ops c = (c', e)"
  shows "Consumer_Close ops c' = (c', Some errClosed)"
proof -
  have "c_closed c'" using Consumer_Close_keeps [of ops c] assms by simp
  then show ?thesis by (simp add: Consumer_Close_def)
qed

text \<open>C9. After \<open>Close\<close>, \<open>Read\<close> fails with \<open>errClosed\<close>, reads nothing, leaves the
  buffer as it was and does not move the cursor.\<close>

theorem Consumer_Read_after_Close:
  assumes "Consumer_Close ops c = (c', e)"
  shows "Consumer_Read ops c' p = (c', (p, 0, Some errClosed))"
proof -
  have "c_closed c'" using Consumer_Close_keeps [of ops c] assms by simp
  then show ?thesis by (simp add: Consumer_Read_def)
qed

text \<open>C10. \<open>Reset(r)\<close> revives any consumer, closed or not: its \<open>Size\<close> becomes
  \<open>r.Size()\<close>, it is open, and the next \<open>Read\<close> is \<open>r.ReadAt(p, 0)\<close>, advancing the cursor
  from 0 by the count read.\<close>

theorem Consumer_Reset_revives:
  "Consumer_Size (Consumer_Reset ops c r) = Size ops r \<and>
   \<not> c_closed (Consumer_Reset ops c r) \<and>
   snd (Consumer_Read ops (Consumer_Reset ops c r) p) = ReadAt ops r p 0 \<and>
   c_i (fst (Consumer_Read ops (Consumer_Reset ops c r) p)) = word_of_nat (rr_n (ReadAt ops r p 0))"
  by (simp add: Consumer_Reset_def Consumer_Size_def Consumer_Read_def split: prod.splits)

lemma Consumer_Rewind_eq_New:
  assumes "consumer_reachable ops einv data c" and "\<not> c_closed c"
  shows "Consumer_Rewind c = NewConsumer ops (c_r c)"
proof -
  from assms have "c_limit c = Size ops (c_r c)"
    by (auto dest: consumer_reachable_inv simp add: consumer_inv_def)
  with assms(2) show ?thesis
    by (simp add: Consumer_Rewind_def NewConsumer_def)
qed

text \<open>C11. On an open consumer in a reachable state, \<open>Rewind\<close> followed by any sequence of
  calls behaves exactly as that sequence on a fresh \<open>NewConsumer\<close> of the same source:
  same results, same final state.\<close>

theorem Consumer_Rewind_replays:
  assumes "consumer_reachable ops einv data c" and "\<not> c_closed c"
  shows "Consumer_run ops (Consumer_Rewind c) calls = Consumer_run ops (NewConsumer ops (c_r c)) calls"
  using Consumer_Rewind_eq_New [OF assms] by simp

text \<open>C20. After \<open>Close\<close>, \<open>Size\<close> still reports the cached size and \<open>Rewind\<close> still
  resets the cursor without touching the size, but the rewound consumer stays closed: its
  next \<open>Read\<close> fails with \<open>errClosed\<close> and leaves the buffer as it was.\<close>

theorem Consumer_after_Close:
  assumes "Consumer_Close ops c = (c', e)"
  shows "Consumer_Size c' = Consumer_Size c \<and>
         c_i (Consumer_Rewind c') = 0 \<and> Consumer_Size (Consumer_Rewind c') = Consumer_Size c \<and>
         snd (Consumer_Read ops (Consumer_Rewind c') p) = (p, 0, Some errClosed)"
proof -
  have keeps: "c_limit c' = c_limit c \<and> c_closed c'"
    using Consumer_Close_keeps [of ops c] assms by simp
  then show ?thesis
    by (simp add: Consumer_Size_def Consumer_Rewind_def Consumer_Read_def)
qed

text \<open>C21. \<open>Close\<close> on an open consumer always leaves it closed; it returns the error of the
  source's own \<open>Close\<close> when the source is an \<open>io.Closer\<close>, and \<open>nil\<close> when it is not.\<close>

theorem Consumer_Close_open:
  assumes "\<not> c_closed c"
  shows "c_closed (fst (Consumer_Close ops c)) \<and>
         snd (Consumer_Close ops c) = (case Closer ops (c_r c) of None \<Rightarrow> None | Some (_, err) \<Rightarrow> err)"
  using assms by (simp add: Consumer_Close_def split: option.splits prod.splits)

section \<open>Bounds of the cursor\<close>

text \<open>C12. In every reachable state the cursor is between 0 and the cached size, and an open
  consumer's cached size is the length of the data its source serves: the \<open>int64\<close> cursor
  never goes negative and never passes the end.\<close>

theorem consumer_cursor_bounds:
  assumes "consumer_reachable ops einv data c"
  shows "0 \<le> sint (c_i c) \<and> sint (c_i c) \<le> sint (Consumer_Size c) \<and>
         (\<not> c_closed c \<longrightarrow> sint (Consumer_Size c) = int (length (data (c_r c))))"
  using consumer_reachable_inv [OF assms]
  by (auto simp add: consumer_inv_def Consumer_Size_def contract_Size)

text \<open>C13. From an open reachable state, after any sequence of \<open>Read\<close> calls the cursor has
  advanced by exactly the sum of the counts the calls returned, whatever the buffer sizes
  and including short reads that came with \<open>io.EOF\<close>; \<open>c.i += int64(n)\<close> never wraps.\<close>

lemma Consumer_run_reads_sum:
  assumes "consumer_reachable ops einv data c" and "\<not> c_closed c"
    and "Consumer_run ops c (map CallRead ps) = (c', rs)"
  shows "sint (c_i c') = sint (c_i c) + int (sum_list (map ret_count rs)) \<and> \<not> c_closed c'"
  using assms
proof (induction ps arbitrary: c c' rs)
  case Nil
  then show ?case by simp
next
  case (Cons p ps)
  obtain c1 r where step: "Consumer_Read ops c p = (c1, r)" by (metis surj_pair)
  obtain c2 rs' where rest: "Consumer_run ops c1 (map CallRead ps) = (c2, rs')" by (metis surj_pair)
  have one: "\<not> c_closed c1 \<and> consumer_reachable ops einv data c1 \<and>
      sint (c_i c1) = sint (c_i c) + int (rr_n r)"
    using Consumer_Read_open_step [OF Cons.prems(1,2) step] by simp
  then have IH: "sint (c_i c2) = sint (c_i c1) + int (sum_list (map ret_count rs')) \<and> \<not> c_closed c2"
    using Cons.IH [OF _ _ rest] by simp
  from Cons.prems(3) step rest have "c' = c2" and "rs = RetRead r # rs'" by simp_all
  with one IH show ?case by simp
qed

end
