(* ===== verification/Consumer_Stream.thy ===== *)
theory Consumer_Stream
  imports Consumer
begin

text \<open>
  The abstract stream a \<open>Consumer\<close> promises (spec section 4.2): either open on a byte
  sequence with a natural-number position, or closed, remembering only the size it
  reports and its position. \<open>consumer_abs\<close> reads a concrete consumer as a stream
  through the data function of its sources. Every method refines its abstract
  operation in every reachable state (\<open>Consumer_Read_refines\<close>,
  \<open>Consumer_step_refines\<close>), and a sequence of reads delivers the source's bytes in
  order from the cursor (\<open>stream_reads_deliver\<close>).
\<close>

section \<open>The abstract stream\<close>

datatype stream = Open "byte list" nat | Closed nat nat

fun stream_read :: "go_error \<Rightarrow> stream \<Rightarrow> byte list \<Rightarrow> stream \<times> read_result" where
  "stream_read einv (Closed l k) p = (Closed l k, (p, 0, Some ErrClosed))"
| "stream_read einv (Open d k) p =
     (let r = readat_spec einv d p (int k) in (Open d (k + rr_n r), r))"

fun stream_rewind :: "stream \<Rightarrow> stream" where
  "stream_rewind (Closed l k) = Closed l 0"
| "stream_rewind (Open d k) = Open d 0"

fun stream_close :: "stream \<Rightarrow> stream" where
  "stream_close (Closed l k) = Closed l k"
| "stream_close (Open d k) = Closed (length d) k"

fun stream_size :: "stream \<Rightarrow> nat" where
  "stream_size (Closed l k) = l"
| "stream_size (Open d k) = length d"

fun stream_step :: "go_error \<Rightarrow> ('r \<Rightarrow> byte list) \<Rightarrow> stream \<Rightarrow> 'r consumer_call \<Rightarrow> stream" where
  "stream_step einv data s (CallRead p) = fst (stream_read einv s p)"
| "stream_step einv data s (CallReset r) = Open (data r) 0"
| "stream_step einv data s CallSize = s"
| "stream_step einv data s CallRewind = stream_rewind s"
| "stream_step einv data s CallClose = stream_close s"

definition consumer_abs :: "('r \<Rightarrow> byte list) \<Rightarrow> 'r Consumer \<Rightarrow> stream" where
  "consumer_abs data c =
     (if c_closed c then Closed (nat (sint (c_limit c))) (nat (sint (c_i c)))
      else Open (data (c_r c)) (nat (sint (c_i c))))"

text \<open>
  A client of the consumer, as \<open>io.ReadAll\<close> would use it: read chunks of \<open>k\<close> bytes
  until a \<open>Read\<close> returns an error, collecting the bytes delivered. The loop stops only
  because the source runs out, so it takes fuel; \<open>None\<close> is running out of fuel.
\<close>

fun read_loop ::
  "'r SizeReaderAt \<Rightarrow> nat \<Rightarrow> nat \<Rightarrow> 'r Consumer \<Rightarrow> ('r Consumer \<times> byte list \<times> go_error option) option"
where
  "read_loop ops k 0 c = None"
| "read_loop ops k (Suc fuel) c =
     (case Consumer_Read ops c (replicate k 0) of (c', (p, n, err)) \<Rightarrow>
        if err = None
        then map_option (\<lambda>(c'', bs, e). (c'', take n p @ bs, e)) (read_loop ops k fuel c')
        else Some (c', take n p, err))"

section \<open>Refinement\<close>

lemma consumer_abs_open:
  "\<not> c_closed c \<Longrightarrow> consumer_abs data c = Open (data (c_r c)) (nat (sint (c_i c)))"
  by (simp add: consumer_abs_def)

lemma consumer_abs_closed:
  "c_closed c \<Longrightarrow> consumer_abs data c = Closed (nat (sint (c_limit c))) (nat (sint (c_i c)))"
  by (simp add: consumer_abs_def)

lemma Consumer_Read_abs:
  assumes reach: "consumer_reachable ops einv data c"
  shows "(case Consumer_Read ops c p of (c', r) \<Rightarrow> (consumer_abs data c', r)) =
         stream_read einv (consumer_abs data c) p"
proof (cases "c_closed c")
  case True
  then show ?thesis by (simp add: Consumer_Read_closed consumer_abs_closed errClosed_def)
next
  case False
  obtain c1 r where step: "Consumer_Read ops c p = (c1, r)" by (metis surj_pair)
  note one = Consumer_Read_open_step [OF reach False step]
  have lo: "0 \<le> sint (c_i c)"
    using consumer_reachable_inv [OF reach] by (simp add: consumer_inv_def)
  have abs1: "consumer_abs data c1 = Open (data (c_r c)) (nat (sint (c_i c)) + rr_n r)"
    using one lo by (simp add: consumer_abs_open nat_add_distrib)
  have "readat_spec einv (data (c_r c)) p (int (nat (sint (c_i c)))) = r"
    using one lo by simp
  with abs1 step False show ?thesis by (simp add: consumer_abs_open Let_def)
qed

text \<open>C14. In every reachable state, \<open>Read\<close> refines the abstract stream's read: the
  result is the abstract result and the new consumer is the abstract new stream. On an
  open consumer this is the positioned read of the source's data at the cursor, with the
  cursor advanced by the count; on a closed one it is the \<open>errClosed\<close> failure.\<close>

theorem Consumer_Read_refines:
  assumes "consumer_reachable ops einv data c"
  shows "(case Consumer_Read ops c p of (c', r) \<Rightarrow> (consumer_abs data c', r)) =
         stream_read einv (consumer_abs data c) p"
  using assms by (rule Consumer_Read_abs)

text \<open>C15. In every reachable state, each of the five methods moves the consumer as its
  abstract operation moves the stream: \<open>Read\<close> as the stream's read, \<open>Reset(r)\<close> to the
  open stream of \<open>r\<close>'s data at 0, \<open>Size\<close> not at all, \<open>Rewind\<close> to position 0 in either
  state, \<open>Close\<close> from open to closed at the same position, and not at all when already
  closed.\<close>

theorem Consumer_step_refines:
  assumes "consumer_reachable ops einv data c"
  shows "consumer_abs data (fst (Consumer_step ops c call)) =
         stream_step einv data (consumer_abs data c) call"
proof (cases call)
  case (CallRead p)
  have "fst (case Consumer_Read ops c p of (c', r) \<Rightarrow> (consumer_abs data c', r)) =
        fst (stream_read einv (consumer_abs data c) p)"
    by (simp only: Consumer_Read_abs [OF assms])
  with CallRead show ?thesis by (simp split: prod.splits del: Consumer_step.simps)
next
  case (CallReset r)
  then show ?thesis by (simp add: Consumer_Reset_def consumer_abs_open)
next
  case CallSize
  then show ?thesis by simp
next
  case CallRewind
  then show ?thesis by (simp add: Consumer_Rewind_def consumer_abs_def)
next
  case CallClose
  have keeps: "c_i (fst (Consumer_Close ops c)) = c_i c \<and>
      c_limit (fst (Consumer_Close ops c)) = c_limit c \<and> c_closed (fst (Consumer_Close ops c))"
    by (rule Consumer_Close_keeps)
  have lim: "\<not> c_closed c \<Longrightarrow> nat (sint (c_limit c)) = length (data (c_r c))"
    using consumer_reachable_inv [OF assms] by (auto simp add: consumer_inv_def contract_Size)
  show ?thesis
  proof (cases "c_closed c")
    case True
    with CallClose show ?thesis
      by (simp add: Consumer_Close_def consumer_abs_closed del: Consumer_step.simps)
  next
    case False
    with CallClose keeps lim show ?thesis
      by (simp add: consumer_abs_def del: Consumer_step.simps)
  qed
qed

section \<open>Sequential reading\<close>

lemma take_drop_chunks:
  "take n (drop k d) @ take m (drop (k + n) d) = take (n + m) (drop k d)"
  by (metis add.commute drop_drop take_add)

lemma min_chunks:
  "n = min a (r :: nat) \<Longrightarrow> n + min s (r - n) = min (a + s) r"
  by (auto simp add: min_def)

lemma reads_deliver_from_cursor:
  assumes "consumer_reachable ops einv data c" and "\<not> c_closed c"
    and "Consumer_run ops c (map CallRead ps) = (c', rs)"
  shows "concat (map ret_bytes rs) =
           take (sum_list (map ret_count rs)) (drop (nat (sint (c_i c))) (data (c_r c))) \<and>
         sum_list (map ret_count rs) =
           min (sum_list (map length ps)) (length (data (c_r c)) - nat (sint (c_i c)))"
  using assms
proof (induction ps arbitrary: c c' rs)
  case Nil
  then show ?case by simp
next
  case (Cons p ps)
  obtain c1 r where step: "Consumer_Read ops c p = (c1, r)" by (metis surj_pair)
  obtain c2 rs' where rest: "Consumer_run ops c1 (map CallRead ps) = (c2, rs')"
    by (metis surj_pair)
  note one = Consumer_Read_open_step [OF Cons.prems(1,2) step]
  let ?k = "nat (sint (c_i c))" and ?d = "data (c_r c)"
  have lo: "0 \<le> sint (c_i c)"
    using consumer_reachable_inv [OF Cons.prems(1)] by (simp add: consumer_inv_def)
  have k1: "nat (sint (c_i c1)) = ?k + rr_n r" using one lo by (simp add: nat_add_distrib)
  have IH: "concat (map ret_bytes rs') = take (sum_list (map ret_count rs')) (drop (?k + rr_n r) ?d) \<and>
      sum_list (map ret_count rs') = min (sum_list (map length ps)) (length ?d - (?k + rr_n r))"
    using Cons.IH [OF _ _ rest] one k1 by simp
  have rs: "rs = RetRead r # rs'" using Cons.prems(3) step rest by simp
  have n: "rr_n r = min (length p) (length ?d - ?k)" using one by blast
  have "take (rr_n r) (rr_buf r) = take (rr_n r) (drop ?k ?d)" using one by blast
  then have tk: "ret_bytes (RetRead r) = take (rr_n r) (drop ?k ?d)" by simp
  have "rr_n r + min (sum_list (map length ps)) (length ?d - ?k - rr_n r) =
        min (length p + sum_list (map length ps)) (length ?d - ?k)"
    using n by (rule min_chunks)
  with IH tk rs show ?case by (simp add: take_drop_chunks diff_diff_add del: ret_bytes.simps)
qed


text \<open>C16. From an open reachable state, any sequence of \<open>Read\<close> calls delivers, in order,
  exactly the source's bytes from the cursor on: the delivered prefixes of the buffers,
  concatenated, are the next bytes of the data, and their number is the total buffer
  space or the bytes left, whichever is smaller.\<close>

theorem Consumer_reads_deliver:
  assumes "consumer_reachable ops einv data c" and "\<not> c_closed c"
    and "Consumer_run ops c (map CallRead ps) = (c', rs)"
  shows "concat (map ret_bytes rs) =
           take (sum_list (map ret_count rs)) (drop (nat (sint (c_i c))) (data (c_r c))) \<and>
         sum_list (map ret_count rs) =
           min (sum_list (map length ps)) (length (data (c_r c)) - nat (sint (c_i c)))"
  using assms by (rule reads_deliver_from_cursor)

section \<open>The read loop ends\<close>

lemma read_loop_delivers:
  assumes "consumer_reachable ops einv data c" and "\<not> c_closed c" and "0 < k"
    and "(length (data (c_r c)) - nat (sint (c_i c))) div k < fuel"
  shows "\<exists>c'. read_loop ops k fuel c = Some (c', drop (nat (sint (c_i c))) (data (c_r c)), Some EOF)"
  using assms
proof (induction fuel arbitrary: c)
  case 0
  then show ?case by simp
next
  case (Suc fuel)
  let ?d = "data (c_r c)" and ?k = "nat (sint (c_i c))" and ?p = "replicate k (0 :: byte)"
  obtain c1 r where step: "Consumer_Read ops c ?p = (c1, r)" by (metis surj_pair)
  obtain buf n e where re: "r = (buf, n, e)" by (metis prod.exhaust)
  note one = Consumer_Read_open_step [OF Suc.prems(1,2) step]
  have lo: "0 \<le> sint (c_i c)" and hi: "sint (c_i c) \<le> int (length ?d)"
    using consumer_cursor_facts [OF Suc.prems(1,2)] by simp_all
  have "rr_n r = min (length ?p) (length ?d - ?k)" using one by blast
  then have n: "n = min k (length ?d - ?k)" using re by simp
  have "take (rr_n r) (rr_buf r) = take (rr_n r) (drop ?k ?d)" using one by blast
  then have tk: "take n buf = take n (drop ?k ?d)" using re by simp
  have "rr_err r = (if length ?d < ?k + k then Some EOF else None)"
    using one readat_spec_status [OF lo hi, of einv ?p] Suc.prems(3) by simp
  then have e: "e = (if length ?d < ?k + k then Some EOF else None)" using re by simp
  show ?case
  proof (cases "length ?d < ?k + k")
    case True
    then have "take n buf = drop ?k ?d" using tk n by simp
    with True e step re show ?thesis by simp
  next
    case False
    have cr: "c_r c1 = c_r c" and open1: "\<not> c_closed c1"
      and reach1: "consumer_reachable ops einv data c1"
      and adv: "sint (c_i c1) = sint (c_i c) + int (rr_n r)"
      using one by blast+
    have nk: "n = k" using n False by simp
    have k1: "nat (sint (c_i c1)) = ?k + k"
      using adv re nk lo by (simp add: nat_add_distrib)
    have room: "k \<le> length ?d - ?k" using False by arith
    have "(length ?d - ?k) div k = Suc ((length ?d - ?k - k) div k)"
      using room Suc.prems(3) by (simp add: le_div_geq)
    then have "(length ?d - ?k - k) div k < fuel" using Suc.prems(4) by simp
    then have fuel: "(length (data (c_r c1)) - nat (sint (c_i c1))) div k < fuel"
      by (simp only: cr k1 diff_diff_add)
    obtain c' where rest:
      "read_loop ops k fuel c1 = Some (c', drop (nat (sint (c_i c1))) (data (c_r c1)), Some EOF)"
      using Suc.IH [OF reach1 open1 Suc.prems(3) fuel] by blast
    have drops: "drop (?k + k) ?d = drop k (drop ?k ?d)"
      by (metis add.commute drop_drop)
    have tkk: "take k buf = take k (drop ?k ?d)" using tk nk by simp
    have "take n buf @ drop (?k + k) ?d = drop ?k ?d"
      by (simp only: drops nk tkk append_take_drop_id)
    with False e step re rest cr k1 show ?thesis by simp
  qed
qed

text \<open>C17. From an open reachable state, a loop reading chunks of \<open>k > 0\<close> bytes until an
  error ends: with more rounds of fuel than \<open>(bytes left) div k\<close> it returns, and it
  returns exactly the remaining bytes of the source with \<open>io.EOF\<close>.\<close>

theorem read_loop_terminates:
  assumes "consumer_reachable ops einv data c" and "\<not> c_closed c" and "0 < k"
    and "(length (data (c_r c)) - nat (sint (c_i c))) div k < fuel"
  shows "\<exists>c'. read_loop ops k fuel c = Some (c', drop (nat (sint (c_i c))) (data (c_r c)), Some EOF)"
  using assms by (rule read_loop_delivers)

end
