(* ===== verification/Spec2Isabelle.thy ===== *)
theory Spec2Isabelle
  imports Strings_View Consumer_Stream
begin

text \<open>
  A verification development of the Go package \<open>views\<close> (nightlyone/views): read-only,
  randomly addressable views of an in-memory byte slice or string, and a consumer that
  reads any such view as a forward-only stream.

  \<^bold>\<open>The program.\<close> Three source files, leaves first:
  \<^item> \<open>src/bytes/view.go\<close>: \<open>View\<close> wraps a \<open>[]byte\<close>; \<open>NewView\<close>, \<open>ReadAt\<close>, \<open>Size\<close>.
  \<^item> \<open>src/strings/view.go\<close>: the same for a \<open>string\<close>.
  \<^item> \<open>src/consumer.go\<close>: the interface \<open>SizeReaderAt\<close> (\<open>io.ReaderAt\<close> and
    \<open>Size() int64\<close>) and \<open>Consumer\<close>, a cursor over a \<open>SizeReaderAt\<close> with \<open>Read\<close>,
    \<open>Reset\<close>, \<open>Size\<close>, \<open>Rewind\<close> and \<open>Close\<close>; \<open>Close\<close> also closes the source when
    its dynamic type is an \<open>io.Closer\<close>.
  The views are the sources the consumer reads; they meet only through the interface.

  \<^bold>\<open>The theories and what they model.\<close>
  \<^item> \<open>Prelude\<close>: Go's machine types (\<open>byte\<close> = 8-bit word, \<open>int64\<close> = 64-bit word),
    the error values (\<open>go_error\<close>; \<open>None\<close> is \<open>nil\<close>; each package's \<open>errors.New\<close>
    value is its own constructor argument), the builtin \<open>copy\<close> (\<open>go_copy\<close>,
    \<open>go_copy_str\<close>), \<open>int64(len(x))\<close> (\<open>int64_len\<close>), and the word lemmas: a Go
    length fits an \<open>int64\<close>, and \<open>i += int64(n)\<close> does not wrap below \<open>2^63\<close>.
  \<^item> \<open>Reader_Interface\<close>: the interface as a method table (\<open>SizeReaderAt\<close> record:
    \<open>ReadAt\<close>, \<open>Size\<close>, and the optional \<open>Closer\<close> found by \<open>Close\<close>'s type
    assertion), the abstract positioned read \<open>readat_spec\<close> over integers and lists, the
    contract \<open>reader_contract\<close> a source meets, Go's documented \<open>io.ReaderAt\<close> rules
    (\<open>io_readerat_rules\<close>), and \<open>readat_code_refines\<close>: the \<open>ReadAt\<close> body both
    views share computes \<open>readat_spec\<close> on 64-bit offsets.
  \<^item> \<open>Bytes_View\<close> (\<open>bytes/view.go\<close>): \<open>bytes_View\<close>, \<open>bytes_NewView\<close>,
    \<open>bytes_errInvalidOffset\<close>, \<open>bytes_Size\<close>, \<open>bytes_ReadAt\<close>, and \<open>bytes_ops\<close>, the
    method set of \<open>*View\<close>. C1-C5: refinement of \<open>readat_spec\<close>, every branch
    (invalid offset, content, end of data) and the \<open>io.ReaderAt\<close> rules for any view;
    \<open>bytes_NewView_contract\<close> discharges the interface contract for the consumer.
  \<^item> \<open>Strings_View\<close> (\<open>strings/view.go\<close>): the same definitions over a Go string (an
    Isabelle \<open>string\<close> of 8-bit chars). C6-C7: refinement, and equivalence with the byte
    view of the same bytes up to the package's invalid-offset error value;
    \<open>strings_NewView_contract\<close> discharges the interface contract.
  \<^item> \<open>Consumer\<close> (\<open>consumer.go\<close>): the struct as a record over the source type, each
    method as a function of the source's method table and the consumer, the calls as
    \<open>consumer_call\<close> dispatched by \<open>Consumer_step\<close> and run by \<open>Consumer_run\<close>, the
    reachable states \<open>consumer_reachable\<close> (created and reset only on sources meeting the
    contract), and the invariant \<open>consumer_inv\<close>, proved by rule induction. C8-C13 and
    C20-C21: the lifecycle (double \<open>Close\<close>, \<open>Read\<close> after \<open>Close\<close>, \<open>Reset\<close> revives,
    \<open>Rewind\<close> replays a fresh consumer, \<open>Size\<close>/\<open>Rewind\<close> after \<open>Close\<close>, the closer's
    error), the bounds of the \<open>int64\<close> cursor, and the cursor as the sum of the counts.
  \<^item> \<open>Consumer_Stream\<close>: the abstract stream the consumer promises (\<open>Open data pos\<close> or
    \<open>Closed size pos\<close>) and \<open>consumer_abs\<close>. C14-C17: \<open>Read\<close> and every call refine
    their abstract operations, reads deliver the source's bytes in order, and a client
    loop reading fixed chunks until an error (\<open>read_loop\<close>) ends.
  \<^item> This theory: the consumer applied to the views (witnesses of the generic lemmas over
    \<open>bytes_ops\<close>, and a test source \<open>failing_closer_ops\<close> whose \<open>Close\<close> fails), and
    C18-C19: a string view and a byte view read whole through a consumer.

  \<^bold>\<open>Bounds and fuel.\<close> Go's \<open>len\<close> is an \<open>int\<close>, so every modelled slice and string has
  fewer than \<open>2^63\<close> elements (\<open>go_len_ok\<close>); the theorems about views and sources
  assume it. \<open>read_loop\<close> takes fuel because its end depends on the source; every round
  without error consumes exactly \<open>k\<close> bytes, so \<open>(bytes left) div k < fuel\<close> rounds are
  enough, and \<open>read_loop_terminates\<close> proves that it then returns.

  \<^bold>\<open>Plan for the next sittings.\<close> Extend the abstract stream with return values of
  \<open>Size\<close> and \<open>Close\<close>; state the consumer as a labelled transition system over calls
  with traces; relate \<open>Consumer.Read\<close> to Go's \<open>io.Reader\<close> contract; prove that the
  consumer over a view reads identically whether the view holds bytes or a string.

  \<^bold>\<open>Not modelled.\<close> Concurrency (the views are immutable values in the model, so
  concurrent reads cannot interfere; the consumer is single-threaded by contract),
  memory aliasing of the caller's slice after \<open>NewView\<close> (the caller promises not to
  mutate it, so the model keeps the slice's value), Go's \<open>errors.New\<close> message text,
  and the internals of a source's \<open>Close\<close> beyond its result and new state.
\<close>

section \<open>A consumer over a byte view\<close>

text \<open>
  The consumer's lemmas are stated over any source that meets \<open>reader_contract\<close>; here
  they are applied to a consumer of \<open>bytes.View\<close>, whose contract \<open>bytes_NewView_contract\<close>
  discharges.
\<close>

abbreviation bytes_consumer :: "byte list \<Rightarrow> bytes_View Consumer" where
  "bytes_consumer b \<equiv> NewConsumer bytes_ops (bytes_NewView b)"

abbreviation strings_consumer :: "string \<Rightarrow> strings_View Consumer" where
  "strings_consumer s \<equiv> NewConsumer strings_ops (strings_NewView s)"

text \<open>
  A source that is also an \<open>io.Closer\<close> whose \<open>Close\<close> fails, as a file whose close
  reports a disk error would be: the byte view's methods with a \<open>Close\<close> added. It is not
  part of the package; the examples use it to exercise the \<open>io.Closer\<close> branch of
  \<open>Consumer.Close\<close>.
\<close>

definition failing_closer_ops :: "bytes_View SizeReaderAt" where
  "failing_closer_ops = bytes_ops\<lparr>Closer := (\<lambda>v. Some (v, Some (ErrCloser ''disk'')))\<rparr>"

lemmas consumer_eval = NewConsumer_def Consumer_Read_def Consumer_Close_def Consumer_Rewind_def
  Consumer_Reset_def Consumer_Size_def errClosed_def bytes_ops_def bytes_eval

lemma bytes_consumer_reachable:
  "go_len_ok b \<Longrightarrow> consumer_reachable bytes_ops bytes_errInvalidOffset bytes_b (bytes_consumer b)"
  by (rule consumer_reachable.new [OF bytes_NewView_contract])

lemma go_len_ok_1234: "go_len_ok [1, 2, 3, 4 :: byte]"
  by (simp add: go_len_ok_def)

lemma bytes_consumer_after_read:
  "consumer_reachable bytes_ops bytes_errInvalidOffset bytes_b
     \<lparr>c_r = bytes_NewView [1, 2, 3, 4], c_i = 2, c_limit = 4, c_closed = False\<rparr>"
proof -
  have "consumer_reachable bytes_ops bytes_errInvalidOffset bytes_b
     (fst (Consumer_Read bytes_ops (bytes_consumer [1, 2, 3, 4]) [0, 0]))"
    by (rule consumer_reachable.read [OF bytes_consumer_reachable [OF go_len_ok_1234]])
  then show ?thesis by (simp add: consumer_eval)
qed

section \<open>Witnesses of the consumer's properties\<close>

theorem Consumer_Close_twice_witness:
  "Consumer_Close bytes_ops (bytes_consumer [1, 2]) =
     (\<lparr>c_r = bytes_NewView [1, 2], c_i = 0, c_limit = 2, c_closed = True\<rparr>, None) \<and>
   Consumer_Close bytes_ops \<lparr>c_r = bytes_NewView [1, 2], c_i = 0, c_limit = 2, c_closed = True\<rparr> =
     (\<lparr>c_r = bytes_NewView [1, 2], c_i = 0, c_limit = 2, c_closed = True\<rparr>, Some errClosed)"
proof -
  have first: "Consumer_Close bytes_ops (bytes_consumer [1, 2]) =
     (\<lparr>c_r = bytes_NewView [1, 2], c_i = 0, c_limit = 2, c_closed = True\<rparr>, None)"
    by (simp add: consumer_eval)
  show ?thesis using first Consumer_Close_twice [OF first] by simp
qed

theorem Consumer_Read_after_Close_witness:
  "Consumer_Close bytes_ops (bytes_consumer [1, 2]) =
     (\<lparr>c_r = bytes_NewView [1, 2], c_i = 0, c_limit = 2, c_closed = True\<rparr>, None) \<and>
   Consumer_Read bytes_ops \<lparr>c_r = bytes_NewView [1, 2], c_i = 0, c_limit = 2, c_closed = True\<rparr> [0] =
     (\<lparr>c_r = bytes_NewView [1, 2], c_i = 0, c_limit = 2, c_closed = True\<rparr>, ([0], 0, Some errClosed))"
proof -
  have first: "Consumer_Close bytes_ops (bytes_consumer [1, 2]) =
     (\<lparr>c_r = bytes_NewView [1, 2], c_i = 0, c_limit = 2, c_closed = True\<rparr>, None)"
    by (simp add: consumer_eval)
  show ?thesis using first Consumer_Read_after_Close [OF first, of "[0]"] by simp
qed

theorem Consumer_Rewind_replays_witness:
  "consumer_reachable bytes_ops bytes_errInvalidOffset bytes_b
     \<lparr>c_r = bytes_NewView [1, 2, 3, 4], c_i = 2, c_limit = 4, c_closed = False\<rparr> \<and>
   \<not> c_closed \<lparr>c_r = bytes_NewView [1, 2, 3, 4 :: byte], c_i = 2, c_limit = 4, c_closed = False\<rparr> \<and>
   Consumer_run bytes_ops
     (Consumer_Rewind \<lparr>c_r = bytes_NewView [1, 2, 3, 4], c_i = 2, c_limit = 4, c_closed = False\<rparr>)
     [CallRead [0, 0, 0]] =
   Consumer_run bytes_ops (bytes_consumer [1, 2, 3, 4]) [CallRead [0, 0, 0]]"
  using bytes_consumer_after_read
    Consumer_Rewind_replays [OF bytes_consumer_after_read, of "[CallRead [0, 0, 0]]"]
  by simp

theorem consumer_cursor_bounds_witness:
  "consumer_reachable bytes_ops bytes_errInvalidOffset bytes_b
     \<lparr>c_r = bytes_NewView [1, 2, 3, 4], c_i = 2, c_limit = 4, c_closed = False\<rparr> \<and>
   0 \<le> sint (2 :: int64) \<and> sint (2 :: int64) \<le> sint (4 :: int64) \<and>
   sint (4 :: int64) = int (length [1, 2, 3, 4 :: byte])"
  using bytes_consumer_after_read consumer_cursor_bounds [OF bytes_consumer_after_read]
  by (simp add: Consumer_Size_def)

theorem Consumer_run_reads_sum_witness:
  "consumer_reachable bytes_ops bytes_errInvalidOffset bytes_b (bytes_consumer [1, 2, 3]) \<and>
   \<not> c_closed (bytes_consumer [1, 2, 3]) \<and>
   Consumer_run bytes_ops (bytes_consumer [1, 2, 3]) (map CallRead [[0, 0], [0, 0]]) =
     (\<lparr>c_r = bytes_NewView [1, 2, 3], c_i = 3, c_limit = 3, c_closed = False\<rparr>,
      [RetRead ([1, 2], 2, None), RetRead ([3, 0], 1, Some EOF)]) \<and>
   sint (3 :: int64) = sint (0 :: int64) + int (2 + 1)"
proof -
  have wf: "go_len_ok [1, 2, 3 :: byte]" by (simp add: go_len_ok_def)
  note reach = bytes_consumer_reachable [OF wf]
  have opn: "\<not> c_closed (bytes_consumer [1, 2, 3])" by (simp add: consumer_eval)
  have run: "Consumer_run bytes_ops (bytes_consumer [1, 2, 3]) (map CallRead [[0, 0], [0, 0]]) =
     (\<lparr>c_r = bytes_NewView [1, 2, 3], c_i = 3, c_limit = 3, c_closed = False\<rparr>,
      [RetRead ([1, 2], 2, None), RetRead ([3, 0], 1, Some EOF)])"
    by (simp add: consumer_eval)
  show ?thesis using reach opn run Consumer_run_reads_sum [OF reach opn run]
    by (simp add: consumer_eval)
qed

theorem Consumer_Read_refines_witness:
  "consumer_reachable bytes_ops bytes_errInvalidOffset bytes_b
     \<lparr>c_r = bytes_NewView [1, 2, 3, 4], c_i = 2, c_limit = 4, c_closed = False\<rparr> \<and>
   (case Consumer_Read bytes_ops
       \<lparr>c_r = bytes_NewView [1, 2, 3, 4], c_i = 2, c_limit = 4, c_closed = False\<rparr> [0, 0, 0] of
      (c', r) \<Rightarrow> (consumer_abs bytes_b c', r)) =
   stream_read bytes_errInvalidOffset
     (consumer_abs bytes_b \<lparr>c_r = bytes_NewView [1, 2, 3, 4], c_i = 2, c_limit = 4, c_closed = False\<rparr>)
     [0, 0, 0]"
  by (rule conjI [OF bytes_consumer_after_read
      Consumer_Read_refines [OF bytes_consumer_after_read, of "[0, 0, 0]"]])

theorem Consumer_step_refines_witness:
  "consumer_reachable bytes_ops bytes_errInvalidOffset bytes_b
     \<lparr>c_r = bytes_NewView [1, 2, 3, 4], c_i = 2, c_limit = 4, c_closed = False\<rparr> \<and>
   consumer_abs bytes_b (fst (Consumer_step bytes_ops
     \<lparr>c_r = bytes_NewView [1, 2, 3, 4], c_i = 2, c_limit = 4, c_closed = False\<rparr> CallClose)) =
   stream_step bytes_errInvalidOffset bytes_b
     (consumer_abs bytes_b \<lparr>c_r = bytes_NewView [1, 2, 3, 4], c_i = 2, c_limit = 4, c_closed = False\<rparr>)
     (CallClose :: bytes_View consumer_call)"
  by (rule conjI [OF bytes_consumer_after_read
      Consumer_step_refines [OF bytes_consumer_after_read, of CallClose]])

theorem Consumer_reads_deliver_witness:
  "consumer_reachable bytes_ops bytes_errInvalidOffset bytes_b (bytes_consumer [1, 2, 3]) \<and>
   \<not> c_closed (bytes_consumer [1, 2, 3]) \<and>
   Consumer_run bytes_ops (bytes_consumer [1, 2, 3]) (map CallRead [[0, 0], [0, 0]]) =
     (\<lparr>c_r = bytes_NewView [1, 2, 3], c_i = 3, c_limit = 3, c_closed = False\<rparr>,
      [RetRead ([1, 2], 2, None), RetRead ([3, 0], 1, Some EOF)]) \<and>
   concat (map ret_bytes [RetRead ([1, 2], 2, None), RetRead ([3, 0], 1, Some EOF)]) = [1, 2, 3]"
proof -
  have wf: "go_len_ok [1, 2, 3 :: byte]" by (simp add: go_len_ok_def)
  note reach = bytes_consumer_reachable [OF wf]
  have opn: "\<not> c_closed (bytes_consumer [1, 2, 3])" by (simp add: consumer_eval)
  have run: "Consumer_run bytes_ops (bytes_consumer [1, 2, 3]) (map CallRead [[0, 0], [0, 0]]) =
     (\<lparr>c_r = bytes_NewView [1, 2, 3], c_i = 3, c_limit = 3, c_closed = False\<rparr>,
      [RetRead ([1, 2], 2, None), RetRead ([3, 0], 1, Some EOF)])"
    by (simp add: consumer_eval)
  show ?thesis using reach opn run Consumer_reads_deliver [OF reach opn run]
    by (simp add: consumer_eval)
qed

theorem read_loop_terminates_witness:
  "consumer_reachable bytes_ops bytes_errInvalidOffset bytes_b (bytes_consumer [1, 2, 3]) \<and>
   \<not> c_closed (bytes_consumer [1, 2, 3]) \<and> (0 :: nat) < 2 \<and>
   (length (bytes_b (c_r (bytes_consumer [1, 2, 3]))) - nat (sint (c_i (bytes_consumer [1, 2, 3])))) div 2
     < (2 :: nat) \<and>
   (\<exists>c'. read_loop bytes_ops 2 2 (bytes_consumer [1, 2, 3]) = Some (c', [1, 2, 3], Some EOF))"
proof -
  have wf: "go_len_ok [1, 2, 3 :: byte]" by (simp add: go_len_ok_def)
  note reach = bytes_consumer_reachable [OF wf]
  have opn: "\<not> c_closed (bytes_consumer [1, 2, 3])" by (simp add: consumer_eval)
  have k: "(0 :: nat) < 2" by simp
  have fuel: "(length (bytes_b (c_r (bytes_consumer [1, 2, 3]))) -
      nat (sint (c_i (bytes_consumer [1, 2, 3])))) div 2 < (2 :: nat)"
    by (simp add: consumer_eval)
  show ?thesis using reach opn k fuel read_loop_terminates [OF reach opn k fuel]
    by (simp add: consumer_eval)
qed

theorem Consumer_after_Close_witness:
  "Consumer_Close bytes_ops (bytes_consumer [1, 2]) =
     (\<lparr>c_r = bytes_NewView [1, 2], c_i = 0, c_limit = 2, c_closed = True\<rparr>, None) \<and>
   Consumer_Size \<lparr>c_r = bytes_NewView [1, 2], c_i = 0, c_limit = 2, c_closed = True\<rparr> =
     Consumer_Size (bytes_consumer [1, 2]) \<and>
   snd (Consumer_Read bytes_ops
     (Consumer_Rewind \<lparr>c_r = bytes_NewView [1, 2], c_i = 0, c_limit = 2, c_closed = True\<rparr>) [7])
     = ([7], 0, Some errClosed)"
proof -
  have first: "Consumer_Close bytes_ops (bytes_consumer [1, 2]) =
     (\<lparr>c_r = bytes_NewView [1, 2], c_i = 0, c_limit = 2, c_closed = True\<rparr>, None)"
    by (simp add: consumer_eval)
  show ?thesis using first Consumer_after_Close [OF first, of "[7]"] by simp
qed

theorem Consumer_Close_open_witness:
  "\<not> c_closed (NewConsumer failing_closer_ops (bytes_NewView [1])) \<and>
   c_closed (fst (Consumer_Close failing_closer_ops (NewConsumer failing_closer_ops (bytes_NewView [1])))) \<and>
   snd (Consumer_Close failing_closer_ops (NewConsumer failing_closer_ops (bytes_NewView [1]))) =
     Some (ErrCloser ''disk'')"
proof -
  have opn: "\<not> c_closed (NewConsumer failing_closer_ops (bytes_NewView [1]))"
    by (simp add: NewConsumer_def)
  show ?thesis
    using opn Consumer_Close_open [OF opn, of failing_closer_ops]
    by (simp add: failing_closer_ops_def NewConsumer_def)
qed

section \<open>Properties across components\<close>

text \<open>C18. A string view read through a fresh consumer in chunks of \<open>k > 0\<close> bytes, with
  more rounds than \<open>len s div k\<close>, yields exactly the bytes of the string and then
  \<open>io.EOF\<close>: the view, the interface and the consumer together serve the string whole.\<close>

theorem strings_consumer_read_all:
  assumes "go_len_ok s" and "0 < k" and "length s div k < fuel"
  shows "\<exists>c'. read_loop strings_ops k fuel (strings_consumer s) = Some (c', map of_char s, Some EOF)"
proof -
  have reach: "consumer_reachable strings_ops strings_errInvalidOffset strings_bytes (strings_consumer s)"
    by (rule consumer_reachable.new [OF strings_NewView_contract [OF assms(1)]])
  have opn: "\<not> c_closed (strings_consumer s)" by (simp add: NewConsumer_def)
  have fuel: "(length (strings_bytes (c_r (strings_consumer s))) -
      nat (sint (c_i (strings_consumer s)))) div k < fuel"
    using assms(3) by (simp add: NewConsumer_def strings_bytes_def)
  show ?thesis
    using read_loop_delivers [OF reach opn assms(2) fuel]
    by (simp add: NewConsumer_def strings_bytes_def)
qed

theorem strings_consumer_read_all_witness:
  "go_len_ok ''abc'' \<and> (0 :: nat) < 2 \<and> length ''abc'' div 2 < (2 :: nat) \<and>
   (\<exists>c'. read_loop strings_ops 2 2 (strings_consumer ''abc'') = Some (c', map of_char ''abc'', Some EOF))"
proof -
  have wf: "go_len_ok ''abc''" by (simp add: go_len_ok_def)
  have k: "(0 :: nat) < 2" and fuel: "length ''abc'' div 2 < (2 :: nat)" by simp_all
  show ?thesis using wf k fuel strings_consumer_read_all [OF wf k fuel] by blast
qed

text \<open>C19. A byte view read through a fresh consumer by any sequence of \<open>Read\<close> calls
  whose buffers together hold at least the whole slice delivers exactly the slice, in
  order.\<close>

theorem bytes_consumer_reads_all:
  assumes "go_len_ok b" and "length b \<le> sum_list (map length ps)"
    and "Consumer_run bytes_ops (bytes_consumer b) (map CallRead ps) = (c', rs)"
  shows "concat (map ret_bytes rs) = b"
proof -
  note reach = bytes_consumer_reachable [OF assms(1)]
  have opn: "\<not> c_closed (bytes_consumer b)" by (simp add: NewConsumer_def)
  from reads_deliver_from_cursor [OF reach opn assms(3)] assms(2)
  show ?thesis by (simp add: NewConsumer_def)
qed

theorem bytes_consumer_reads_all_witness:
  "go_len_ok [5, 6, 7 :: byte] \<and> length [5, 6, 7 :: byte] \<le> sum_list (map length [[0, 0], [0, 0 :: byte]]) \<and>
   Consumer_run bytes_ops (bytes_consumer [5, 6, 7]) (map CallRead [[0, 0], [0, 0]]) =
     (\<lparr>c_r = bytes_NewView [5, 6, 7], c_i = 3, c_limit = 3, c_closed = False\<rparr>,
      [RetRead ([5, 6], 2, None), RetRead ([7, 0], 1, Some EOF)]) \<and>
   concat (map ret_bytes [RetRead ([5, 6], 2, None), RetRead ([7, 0], 1, Some EOF)]) = [5, 6, 7]"
proof -
  have wf: "go_len_ok [5, 6, 7 :: byte]" by (simp add: go_len_ok_def)
  have room: "length [5, 6, 7 :: byte] \<le> sum_list (map length [[0, 0], [0, 0 :: byte]])" by simp
  have run: "Consumer_run bytes_ops (bytes_consumer [5, 6, 7]) (map CallRead [[0, 0], [0, 0]]) =
     (\<lparr>c_r = bytes_NewView [5, 6, 7], c_i = 3, c_limit = 3, c_closed = False\<rparr>,
      [RetRead ([5, 6], 2, None), RetRead ([7, 0], 1, Some EOF)])"
    by (simp add: consumer_eval)
  show ?thesis using wf room run bytes_consumer_reads_all [OF wf room run] by blast
qed

end
